theory Spec2Isabelle
  imports Main
begin

section \<open>JavaScript values and built-ins used by \<open>scripts/generate.ts\<close>\<close>

text \<open>
  A JavaScript string is a sequence of code units; it is modelled as a \<open>string\<close>, one
  list element per code unit, so that \<open>length\<close> is the \<open>.length\<close> of the source.
  A table is a \<open>string[][]\<close>: a list of rows, each a list of cells.
\<close>

type_synonym row = "string list"
type_synonym table = "row list"

text \<open>The only exception a built-in called by \<open>formatTable\<close> can throw.\<close>

datatype error = RangeError

text \<open>The numbers held by \<open>colChars\<close>: an integer or \<open>NaN\<close>.\<close>

datatype jsnum = Num int | NaN

text \<open>
  Array slots: \<open>None\<close> is an empty slot, which reads as \<open>undefined\<close>. Reading past the
  end gives \<open>undefined\<close> too; writing past the end extends the array, leaving empty
  slots in between.
\<close>

definition array_get :: "'a option list \<Rightarrow> nat \<Rightarrow> 'a option" where
  "array_get xs i = (if i < length xs then xs ! i else None)"

definition array_set :: "'a option list \<Rightarrow> nat \<Rightarrow> 'a \<Rightarrow> 'a option list" where
  "array_set xs i v =
     (if i < length xs then xs[i := Some v]
      else xs @ replicate (i - length xs) None @ [Some v])"

text \<open>\<open>Math.max(a, b)\<close>: \<open>undefined\<close> converts to \<open>NaN\<close>, and \<open>NaN\<close> is absorbing.\<close>

definition Math_max :: "jsnum option \<Rightarrow> jsnum \<Rightarrow> jsnum" where
  "Math_max a b =
     (case a of
        None \<Rightarrow> NaN
      | Some NaN \<Rightarrow> NaN
      | Some (Num x) \<Rightarrow> (case b of NaN \<Rightarrow> NaN | Num y \<Rightarrow> Num (max x y)))"

text \<open>\<open>col?.length || 0\<close> for a string \<open>col\<close>.\<close>

definition length_or_0 :: "string \<Rightarrow> jsnum" where
  "length_or_0 col = (if int (length col) = 0 then Num 0 else Num (int (length col)))"

text \<open>
  \<open>ToLength\<close>: \<open>undefined\<close> and \<open>NaN\<close> become 0, as does every number below 0. (It also
  clamps at \<open>2^53 - 1\<close>, the largest length a string can have; the arguments here are
  lengths of strings.)
\<close>

definition ToLength :: "jsnum option \<Rightarrow> nat" where
  "ToLength w = (case w of None \<Rightarrow> 0 | Some NaN \<Rightarrow> 0 | Some (Num n) \<Rightarrow> (if n \<le> 0 then 0 else nat n))"

text \<open>\<open>s.padEnd(maxLength, ' ')\<close>.\<close>

definition padEnd :: "string \<Rightarrow> jsnum option \<Rightarrow> string" where
  "padEnd s maxLength =
     (let intMaxLength = ToLength maxLength
      in if intMaxLength \<le> length s then s
         else s @ replicate (intMaxLength - length s) CHR '' '')"

text \<open>\<open>s.repeat(count)\<close>: \<open>NaN\<close> counts as 0, a negative count throws.\<close>

definition repeat :: "string \<Rightarrow> jsnum \<Rightarrow> error + string" where
  "repeat s count =
     (case count of
        NaN \<Rightarrow> Inr []
      | Num n \<Rightarrow> if n < 0 then Inl RangeError else Inr (concat (replicate (nat n) s)))"

text \<open>\<open>xs.join(sep)\<close> on an array of strings.\<close>

fun join :: "string \<Rightarrow> string list \<Rightarrow> string" where
  "join sep [] = []"
| "join sep [x] = x"
| "join sep (x # y # ys) = x @ sep @ join sep (y # ys)"

section \<open>\<open>formatTable\<close>\<close>

text \<open>
  First loop: \<open>colChars[idx] = Math.max(colChars[idx], col?.length || 0)\<close> for every cell
  of every row, starting from \<open>header.length\<close> zeros.
\<close>

definition measure_cell :: "jsnum option list \<Rightarrow> nat \<times> string \<Rightarrow> jsnum option list" where
  "measure_cell colChars ic =
     (case ic of (idx, col) \<Rightarrow>
        array_set colChars idx (Math_max (array_get colChars idx) (length_or_0 col)))"

definition measure_row :: "jsnum option list \<Rightarrow> row \<Rightarrow> jsnum option list" where
  "measure_row colChars row = foldl measure_cell colChars (enumerate 0 row)"

definition colChars :: "row \<Rightarrow> table \<Rightarrow> jsnum option list" where
  "colChars header table = foldl measure_row (replicate (length header) (Some (Num 0))) table"

text \<open>
  Second loop: \<open>table[rowIdx][colIdx] = col?.padEnd(colChars[colIdx], ' ') || ''\<close>. Every
  cell is overwritten in place by a function of its own old value and its column index,
  so the table after the loop is the elementwise image of the table before it. (Rows
  are taken as values: a row array that occurs twice in the table is padded twice, which
  changes nothing, see \<open>pad_row_idem\<close> below.)
\<close>

definition pad_cell :: "jsnum option list \<Rightarrow> nat \<times> string \<Rightarrow> string" where
  "pad_cell cc ic =
     (case ic of (colIdx, col) \<Rightarrow>
        (let p = padEnd col (array_get cc colIdx) in if p = [] then [] else p))"

definition pad_row :: "jsnum option list \<Rightarrow> row \<Rightarrow> row" where
  "pad_row cc row = map (pad_cell cc) (enumerate 0 row)"

definition pad_table :: "jsnum option list \<Rightarrow> table \<Rightarrow> table" where
  "pad_table cc table = map (pad_row cc) table"

text \<open>\<open>colChars.map(w => '-'.repeat(w))\<close>; \<open>map\<close> leaves an empty slot empty, and \<open>join\<close>
  prints an empty slot as the empty string.\<close>

fun dashes :: "jsnum option list \<Rightarrow> error + string list" where
  "dashes [] = Inr []"
| "dashes (w # ws) =
     (case (case w of None \<Rightarrow> Inr [] | Some n \<Rightarrow> repeat ''-'' n) of
        Inl e \<Rightarrow> Inl e
      | Inr d \<Rightarrow> (case dashes ws of Inl e \<Rightarrow> Inl e | Inr ds \<Rightarrow> Inr (d # ds)))"

text \<open>The template literal \<open>`| ${cells.join(' | ')} |`\<close>.\<close>

definition line :: "string list \<Rightarrow> string" where
  "line cells = ''| '' @ join '' | '' cells @ '' |''"

text \<open>The array literal that \<open>formatTable\<close> joins with newlines.\<close>

definition table_lines :: "table \<Rightarrow> string list \<Rightarrow> string list" where
  "table_lines padded ds = line (hd padded) # line ds # map line (tl padded)"

text \<open>
  \<open>formatTable\<close> returns a string and, as a side effect, overwrites the cells of its
  argument: the model returns the string together with the argument as it is after the
  call. \<open>header\<close> and \<open>body\<close> hold the row arrays of \<open>table\<close> themselves, so the lines are
  printed from the padded rows. The error branch is the exception of \<open>repeat\<close>.
\<close>

definition formatTable :: "table \<Rightarrow> error + (string \<times> table)" where
  "formatTable table =
     (case table of
        [] \<Rightarrow> Inr (''**No data**'', table)
      | header # body \<Rightarrow>
          (let cc = colChars header table;
               table' = pad_table cc table
           in case dashes cc of
                Inl e \<Rightarrow> Inl e
              | Inr ds \<Rightarrow> Inr (join [CHR 0x0A] (table_lines table' ds), table')))"


section \<open>\<open>markdownEscape\<close>\<close>

text \<open>
  \<open>text.replaceAll(c, r)\<close> where the search string \<open>c\<close> is a single code unit and the
  replacement \<open>r\<close> contains no \<open>$\<close>: every occurrence of \<open>c\<close> is replaced by \<open>r\<close>.
\<close>

definition replaceAll :: "char \<Rightarrow> string \<Rightarrow> string \<Rightarrow> string" where
  "replaceAll c r text = concat (map (\<lambda>x. if x = c then r else [x]) text)"

definition markdownEscape :: "string \<Rightarrow> string" where
  "markdownEscape text =
     replaceAll CHR ''|'' ''&vert;''
       (replaceAll CHR ''>'' ''&gt;''
          (replaceAll CHR ''<'' ''&lt;''
             (replaceAll CHR ''&'' ''&amp;'' text)))"

section \<open>\<open>generateMarkdown\<close>\<close>

record RaycastCommand =
  name :: string
  title :: string
  description :: string
  mode :: string

text \<open>
  \<open>default\<close> has type \<open>unknown\<close>: \<open>None\<close> is an absent key (\<open>undefined\<close>), \<open>Some v\<close> a
  value \<open>v\<close> of the manifest.
\<close>

record 'v RaycastPreference =
  name :: string
  title :: string
  type :: string
  required :: "bool option"
  description :: string
  default :: "'v option"

record 'v PackageJSON =
  commands :: "RaycastCommand list option"
  preferences :: "'v RaycastPreference list option"

text \<open>
  \<open>String(v)\<close>: \<open>undefined\<close> becomes the text \<open>undefined\<close>; the conversion of the values
  a manifest can hold is the parameter \<open>str\<close>.
\<close>

definition String :: "('v \<Rightarrow> string) \<Rightarrow> 'v option \<Rightarrow> string" where
  "String str v = (case v of None \<Rightarrow> ''undefined'' | Some x \<Rightarrow> str x)"

text \<open>The template literal \<open>`\`${s}\``\<close>.\<close>

definition backticks :: "string \<Rightarrow> string" where
  "backticks s = [CHR 0x60] @ s @ [CHR 0x60]"

definition command_row :: "RaycastCommand \<Rightarrow> row" where
  "command_row c =
     [backticks (RaycastCommand.title c), markdownEscape (RaycastCommand.description c)]"

definition preference_row :: "('v \<Rightarrow> string) \<Rightarrow> 'v RaycastPreference \<Rightarrow> row" where
  "preference_row str p =
     [backticks (RaycastPreference.name p),
      markdownEscape (RaycastPreference.description p),
      backticks (if required p = Some True then ''Yes'' else ''No''),
      markdownEscape (String str (default p))]"

text \<open>The tables as they are when \<open>formatTable\<close> is called on them.\<close>

definition commandsTable_rows :: "'v PackageJSON \<Rightarrow> table" where
  "commandsTable_rows packageJson =
     (case commands packageJson of
        None \<Rightarrow> []
      | Some cs \<Rightarrow>
          if length cs \<noteq> 0 then [''Title'', ''Description''] # map command_row cs else [])"

definition configsTable_rows :: "('v \<Rightarrow> string) \<Rightarrow> 'v PackageJSON \<Rightarrow> table" where
  "configsTable_rows str packageJson =
     (case preferences packageJson of
        None \<Rightarrow> []
      | Some ps \<Rightarrow>
          if length ps \<noteq> 0
          then [''Key'', ''Description'', ''Required'', ''Default''] # map (preference_row str) ps
          else [])"

record Markdown =
  commandsTable :: string
  configsTable :: string

definition generateMarkdown :: "('v \<Rightarrow> string) \<Rightarrow> 'v PackageJSON \<Rightarrow> error + Markdown" where
  "generateMarkdown str packageJson =
     (case formatTable (commandsTable_rows packageJson) of
        Inl e \<Rightarrow> Inl e
      | Inr (c, _) \<Rightarrow>
          (case formatTable (configsTable_rows str packageJson) of
             Inl e \<Rightarrow> Inl e
           | Inr (p, _) \<Rightarrow> Inr \<lparr>commandsTable = c, configsTable = p\<rparr>))"

section \<open>\<open>generate\<close>: splicing the tables into the document\<close>

text \<open>
  The two regular expressions have the shape
  \<open>/<!-- (a|b) -->[\s\S]*?<!-- (a|b) -->/\<close>. The matcher below is the backtracking
  matcher specialised to that shape.
\<close>

fun starts_with :: "string \<Rightarrow> string \<Rightarrow> bool" where
  "starts_with [] s = True"
| "starts_with (p # ps) [] = False"
| "starts_with (p # ps) (c # cs) = (p = c \<and> starts_with ps cs)"

definition marker :: "string \<Rightarrow> string" where
  "marker n = ''<!-- '' @ n @ '' -->''"

text \<open>\<open><!-- (a|b) -->\<close> at the end of the pattern: the alternatives are tried in order.\<close>

definition end_marker :: "string \<Rightarrow> string \<Rightarrow> string \<Rightarrow> (string \<times> string) option" where
  "end_marker a b s =
     (if starts_with (marker a) s then Some (a, drop (length (marker a)) s)
      else if starts_with (marker b) s then Some (b, drop (length (marker b)) s)
      else None)"

text \<open>
  \<open>[\s\S]*?<!-- (a|b) -->\<close>: the lazy star first tries to consume nothing, then one
  more code unit at a time. The result is the text consumed by the star, the second
  capture and the text after the match.
\<close>

fun lazy_any :: "string \<Rightarrow> string \<Rightarrow> string \<Rightarrow> (string \<times> string \<times> string) option" where
  "lazy_any a b [] =
     (case end_marker a b [] of None \<Rightarrow> None | Some (c2, rest) \<Rightarrow> Some ([], c2, rest))"
| "lazy_any a b (x # xs) =
     (case end_marker a b (x # xs) of
        Some (c2, rest) \<Rightarrow> Some ([], c2, rest)
      | None \<Rightarrow>
          (case lazy_any a b xs of
             None \<Rightarrow> None
           | Some (mid, c2, rest) \<Rightarrow> Some (x # mid, c2, rest)))"

text \<open>
  One alternative \<open>n\<close> of the first group, followed by the rest of the pattern; the
  matcher falls back to the second alternative when the rest fails after the first.
\<close>

definition alternative ::
  "string \<Rightarrow> string \<Rightarrow> string \<Rightarrow> string \<Rightarrow> (string \<times> string \<times> string \<times> string) option" where
  "alternative n a b s =
     (if starts_with (marker n) s
      then (case lazy_any a b (drop (length (marker n)) s) of
              None \<Rightarrow> None
            | Some (mid, c2, rest) \<Rightarrow> Some (n, mid, c2, rest))
      else None)"

definition match_here ::
  "string \<Rightarrow> string \<Rightarrow> string \<Rightarrow> (string \<times> string \<times> string \<times> string) option" where
  "match_here a b s =
     (case alternative a a b s of Some m \<Rightarrow> Some m | None \<Rightarrow> alternative b a b s)"

text \<open>
  The leftmost match: the text before it, the first capture, the text between the
  markers, the second capture and the text after it.
\<close>

fun exec ::
  "string \<Rightarrow> string \<Rightarrow> string \<Rightarrow> (string \<times> string \<times> string \<times> string \<times> string) option" where
  "exec a b [] =
     (case match_here a b [] of None \<Rightarrow> None | Some m \<Rightarrow> Some ([], m))"
| "exec a b (x # xs) =
     (case match_here a b (x # xs) of
        Some m \<Rightarrow> Some ([], m)
      | None \<Rightarrow>
          (case exec a b xs of None \<Rightarrow> None | Some (pre, m) \<Rightarrow> Some (x # pre, m)))"

text \<open>
  \<open>GetSubstitution\<close>, which expands the replacement string of \<open>replace\<close>: \<open>$$\<close> is a
  dollar sign, \<open>$&\<close> the matched text, \<open>$`\<close> and \<open>$'\<close> the text before and after the
  match, \<open>$n\<close> and \<open>$nn\<close> the captures (a two-digit index beyond the number of captures
  is read as one digit followed by a literal digit; an index that names no capture is
  left as it is). There are no named groups, so \<open>$<\<close> is literal.
\<close>

definition is_digit :: "char \<Rightarrow> bool" where
  "is_digit c = (48 \<le> (of_char c :: nat) \<and> (of_char c :: nat) \<le> 57)"

definition digit_value :: "char \<Rightarrow> nat" where
  "digit_value c = of_char c - 48"

fun GetSubstitution ::
  "string \<Rightarrow> string \<Rightarrow> string \<Rightarrow> string list \<Rightarrow> string \<Rightarrow> string" where
  "GetSubstitution matched pre post captures [] = []"
| "GetSubstitution matched pre post captures [c] = [c]"
| "GetSubstitution matched pre post captures (c # d # t) =
     (if c \<noteq> CHR ''$'' then c # GetSubstitution matched pre post captures (d # t)
      else if d = CHR ''$'' then CHR ''$'' # GetSubstitution matched pre post captures t
      else if d = CHR 0x60 then pre @ GetSubstitution matched pre post captures t
      else if d = CHR ''&'' then matched @ GetSubstitution matched pre post captures t
      else if d = CHR 0x27 then post @ GetSubstitution matched pre post captures t
      else if is_digit d then
        (case t of
           [] \<Rightarrow>
             (if 1 \<le> digit_value d \<and> digit_value d \<le> length captures
              then captures ! (digit_value d - 1)
              else [c, d])
         | e # t' \<Rightarrow>
             (if is_digit e \<and> 10 * digit_value d + digit_value e \<le> length captures
              then (if 1 \<le> 10 * digit_value d + digit_value e
                    then captures ! (10 * digit_value d + digit_value e - 1)
                           @ GetSubstitution matched pre post captures t'
                    else c # d # e # GetSubstitution matched pre post captures t')
              else (if 1 \<le> digit_value d \<and> digit_value d \<le> length captures
                    then captures ! (digit_value d - 1)
                           @ GetSubstitution matched pre post captures (e # t')
                    else c # d # GetSubstitution matched pre post captures (e # t'))))
      else c # GetSubstitution matched pre post captures (d # t))"

text \<open>\<open>text.replace(/<!-- (a|b) -->[\s\S]*?<!-- (a|b) -->/, replaceValue)\<close>.\<close>

definition replace :: "string \<Rightarrow> string \<Rightarrow> string \<Rightarrow> string \<Rightarrow> string" where
  "replace a b replaceValue text =
     (case exec a b text of
        None \<Rightarrow> text
      | Some (pre, c1, mid, c2, post) \<Rightarrow>
          pre
            @ GetSubstitution (marker c1 @ mid @ marker c2) pre post [c1, c2] replaceValue
            @ post)"

text \<open>The template literal \<open>`<!-- $1 -->\n\n${t}\n\n<!-- $2 -->`\<close>.\<close>

definition replacement :: "string \<Rightarrow> string" where
  "replacement t =
     ''<!-- $1 -->'' @ [CHR 0x0A, CHR 0x0A] @ t @ [CHR 0x0A, CHR 0x0A] @ ''<!-- $2 -->''"

definition splice :: "Markdown \<Rightarrow> string \<Rightarrow> string" where
  "splice markdown raw =
     replace ''configs'' ''configs-table'' (replacement (configsTable markdown))
       (replace ''commands'' ''commands-table'' (replacement (commandsTable markdown)) raw)"

text \<open>
  \<open>generate\<close>, from the parsed \<open>package.json\<close> and the text of \<open>README.md\<close>. The result
  is \<open>Some content\<close> when \<open>README.md\<close> is written with \<open>content\<close>, and \<open>None\<close> when it
  is not written.
\<close>

definition generate :: "('v \<Rightarrow> string) \<Rightarrow> 'v PackageJSON \<Rightarrow> string \<Rightarrow> error + string option" where
  "generate str json raw =
     (case generateMarkdown str json of
        Inl e \<Rightarrow> Inl e
      | Inr markdown \<Rightarrow>
          (let content = splice markdown raw
           in Inr (if raw \<noteq> content then Some content else None)))"


section \<open>Notions used to state the properties\<close>

text \<open>
  The character length of the cell of a row at index \<open>i\<close>, a missing cell counting as 0,
  and the maximum of these over every row of the table, the header included.
\<close>

definition cell_len :: "nat \<Rightarrow> row \<Rightarrow> nat" where
  "cell_len i row = (if i < length row then length (row ! i) else 0)"

definition col_width :: "table \<Rightarrow> nat \<Rightarrow> nat" where
  "col_width table i = Max (cell_len i ` set table)"

text \<open>
  The number of \<open>|\<close>-delimited fields of a rendered line: the line starts and ends with
  a delimiter, so it is one less than the number of delimiters.
\<close>

definition num_fields :: "string \<Rightarrow> nat" where
  "num_fields l = count_list l CHR ''|'' - 1"

text \<open>The entity that stands for one character of the input of \<open>markdownEscape\<close>.\<close>

definition escape_char :: "char \<Rightarrow> string" where
  "escape_char c =
     (if c = CHR ''&'' then ''&amp;''
      else if c = CHR ''<'' then ''&lt;''
      else if c = CHR ''>'' then ''&gt;''
      else if c = CHR ''|'' then ''&vert;''
      else [c])"

text \<open>
  Two functions that describe the loops of \<open>formatTable\<close> by recursion on the data:
  what one row does to \<open>colChars\<close>, and the run of dashes printed for one entry.
\<close>

fun widen :: "jsnum option list \<Rightarrow> row \<Rightarrow> jsnum option list" where
  "widen ws [] = ws"
| "widen [] (c # cs) = Some NaN # widen [] cs"
| "widen (w # ws) (c # cs) = Some (Math_max w (length_or_0 c)) # widen ws cs"

definition dash_run :: "jsnum option \<Rightarrow> string" where
  "dash_run w = (case w of Some (Num n) \<Rightarrow> replicate (nat n) CHR ''-'' | _ \<Rightarrow> [])"

section \<open>The widths computed by the first loop\<close>

text \<open>
  The inner \<open>forEach\<close> of the first loop visits the indices of a row in order, so on a
  row it computes \<open>widen\<close>: entries below the length of \<open>colChars\<close> are raised to the
  cell's length, and each further cell appends \<open>NaN\<close>, the maximum of \<open>undefined\<close> and
  a number.
\<close>

lemma foldl_measure_cell:
  "foldl measure_cell (pre @ cc) (enumerate (length pre) row) = pre @ widen cc row"
proof (induction row arbitrary: pre cc)
  case Nil
  show ?case by simp
next
  case (Cons c cs)
  show ?case
  proof (cases cc)
    case Nil
    have "measure_cell pre (length pre, c) = (pre @ [Some NaN]) @ []"
      by (simp add: measure_cell_def array_set_def array_get_def Math_max_def)
    then show ?thesis
      using Cons.IH [of "pre @ [Some NaN]" "[]"] Nil by simp
  next
    case (Cons w ws)
    have "measure_cell (pre @ w # ws) (length pre, c)
            = (pre @ [Some (Math_max w (length_or_0 c))]) @ ws"
      by (simp add: measure_cell_def array_set_def array_get_def nth_append)
    then show ?thesis
      using Cons.IH [of "pre @ [Some (Math_max w (length_or_0 c))]" ws] Cons by simp
  qed
qed

lemma measure_row_widen: "measure_row cc row = widen cc row"
  using foldl_measure_cell [of "[]" cc row] by (simp add: measure_row_def)

lemma length_widen: "length (widen cc row) = max (length cc) (length row)"
  by (induction cc row rule: widen.induct) auto

lemma nth_widen:
  "i < length (widen cc row) \<Longrightarrow>
   widen cc row ! i =
     (if i < length row then Some (Math_max (array_get cc i) (length_or_0 (row ! i)))
      else cc ! i)"
proof (induction cc row arbitrary: i rule: widen.induct)
  case (1 ws)
  then show ?case by simp
next
  case (2 c cs)
  then show ?case
    by (cases i) (auto simp: array_get_def Math_max_def length_widen)
next
  case (3 w ws c cs)
  then show ?case
    by (cases i) (auto simp: array_get_def)
qed

lemma Math_max_Num: "Math_max (Some (Num a)) (length_or_0 s) = Num (max a (int (length s)))"
  by (simp add: Math_max_def length_or_0_def)

lemma Math_max_NaN: "Math_max (Some NaN) b = NaN" "Math_max None b = NaN"
  by (simp_all add: Math_max_def)

lemma fold_max_ge: "(L::nat) \<le> fold max xs L"
  by (induction xs arbitrary: L) (auto intro: order_trans [OF max.cobounded2])

lemma fold_max_mem: "(x::nat) \<in> set xs \<Longrightarrow> x \<le> fold max xs L"
proof (induction xs arbitrary: L)
  case Nil
  then show ?case by simp
next
  case (Cons y ys)
  show ?case
  proof (cases "x = y")
    case True
    have "max y L \<le> fold max ys (max y L)" by (rule fold_max_ge)
    with True show ?thesis by simp
  next
    case False
    with Cons show ?thesis by simp
  qed
qed

lemma fold_max_Max: "fold max xs (a::nat) = Max (insert a (set xs))"
proof (induction xs arbitrary: a)
  case Nil
  show ?case by simp
next
  case (Cons x xs)
  have "insert (max x a) (set xs) \<noteq> {}" by simp
  have "Max (insert (max x a) (set xs)) = Max (insert a (insert x (set xs)))"
    by (cases "set xs = {}") (simp_all add: max.commute max.left_commute max.assoc)
  with Cons show ?case by simp
qed

lemma fold_max_col_width:
  assumes "table \<noteq> []"
  shows "fold max (map (cell_len i) table) 0 = col_width table i"
proof -
  have "Max (insert 0 (cell_len i ` set table)) = Max (cell_len i ` set table)"
    using assms by (simp add: max.absorb2)
  then show ?thesis by (simp add: fold_max_Max col_width_def)
qed

text \<open>
  The invariant of the outer loop: the entries below the header's length are the
  running maxima of the cell lengths, the entries beyond it are \<open>NaN\<close>.
\<close>

lemma foldl_measure_row:
  assumes "length cc = L" and "n \<le> L"
    and "\<forall>i<L. cc ! i = (if i < n then Some (Num (int (a i))) else Some NaN)"
  shows "length (foldl measure_row cc t) = fold max (map length t) L \<and>
         (\<forall>i < fold max (map length t) L.
            foldl measure_row cc t ! i =
              (if i < n then Some (Num (int (fold max (map (cell_len i) t) (a i))))
               else Some NaN))"
  using assms
proof (induction t arbitrary: cc L a)
  case Nil
  then show ?case by simp
next
  case (Cons r t)
  let ?cc = "measure_row cc r"
  let ?L = "max (length r) L"
  let ?a = "\<lambda>i. max (cell_len i r) (a i)"
  have len: "length ?cc = ?L"
    using Cons.prems(1) by (simp add: measure_row_widen length_widen max.commute)
  have nL: "n \<le> ?L" using Cons.prems(2) by simp
  have el: "\<forall>i<?L. ?cc ! i = (if i < n then Some (Num (int (?a i))) else Some NaN)"
  proof (intro allI impI)
    fix i assume i: "i < ?L"
    then have il: "i < length (widen cc r)"
      using Cons.prems(1) by (simp add: length_widen max.commute)
    show "?cc ! i = (if i < n then Some (Num (int (?a i))) else Some NaN)"
    proof (cases "i < length r")
      case True
      show ?thesis
      proof (cases "i < L")
        case True
        with Cons.prems \<open>i < length r\<close> il show ?thesis
          by (simp add: measure_row_widen nth_widen array_get_def cell_len_def
                Math_max_Num Math_max_NaN max.commute of_nat_max)
      next
        case False
        with Cons.prems \<open>i < length r\<close> il show ?thesis
          by (simp add: measure_row_widen nth_widen array_get_def Math_max_NaN)
      qed
    next
      case False
      with i have "i < L" by simp
      with Cons.prems False il show ?thesis
        by (simp add: measure_row_widen nth_widen cell_len_def)
    qed
  qed
  from Cons.IH [OF len nL el] show ?case by simp
qed

lemma colChars_facts:
  "length (colChars h t) = fold max (map length t) (length h) \<and>
   (\<forall>i < fold max (map length t) (length h).
      colChars h t ! i =
        (if i < length h then Some (Num (int (fold max (map (cell_len i) t) 0)))
         else Some NaN))"
  unfolding colChars_def
  by (rule foldl_measure_row [where a = "\<lambda>_. 0" and n = "length h"]) simp_all

lemma length_colChars: "length (colChars h t) = fold max (map length t) (length h)"
  using colChars_facts by blast

lemma length_colChars_header: "length h \<le> length (colChars h t)"
  by (simp add: length_colChars fold_max_ge)

lemma length_colChars_row: "r \<in> set t \<Longrightarrow> length r \<le> length (colChars h t)"
  by (simp add: length_colChars fold_max_mem)

lemma colChars_nth_header:
  assumes "t \<noteq> []" and "i < length h"
  shows "colChars h t ! i = Some (Num (int (col_width t i)))"
proof -
  have "i < fold max (map length t) (length h)"
    using assms(2) fold_max_ge [of "length h" "map length t"] by simp
  with colChars_facts [of h t] assms show ?thesis
    by (simp add: fold_max_col_width)
qed

lemma colChars_nth_extra:
  assumes "length h \<le> i" and "i < length (colChars h t)"
  shows "colChars h t ! i = Some NaN"
  using colChars_facts [of h t] assms by (simp add: length_colChars)

lemma colChars_entries:
  assumes "w \<in> set (colChars h t)"
  shows "w = Some NaN \<or> (\<exists>n. w = Some (Num (int n)))"
proof -
  from assms obtain i where i: "i < length (colChars h t)" and w: "w = colChars h t ! i"
    by (auto simp: in_set_conv_nth)
  with colChars_facts [of h t] show ?thesis
    by (auto simp: length_colChars)
qed

section \<open>\<open>formatTable\<close> returns\<close>

text \<open>
  Every entry of \<open>colChars\<close> is \<open>NaN\<close> or the length of a string, so \<open>repeat\<close> is never
  called with a negative count.
\<close>

lemma dashes_ok:
  "(\<forall>w\<in>set cc. w = Some NaN \<or> (\<exists>n. w = Some (Num (int n)))) \<Longrightarrow>
   dashes cc = Inr (map dash_run cc)"
  by (induction cc) (auto simp: repeat_def dash_run_def)

lemma dashes_colChars: "dashes (colChars h t) = Inr (map dash_run (colChars h t))"
  by (rule dashes_ok) (blast dest: colChars_entries)

lemma formatTable_Cons:
  "formatTable (h # b) =
     Inr (join [CHR 0x0A]
            (table_lines (pad_table (colChars h (h # b)) (h # b))
               (map dash_run (colChars h (h # b)))),
          pad_table (colChars h (h # b)) (h # b))"
  by (simp add: formatTable_def dashes_colChars Let_def)

lemma formatTable_returns: "\<exists>out table'. formatTable table = Inr (out, table')"
proof (cases table)
  case Nil
  then show ?thesis by (simp add: formatTable_def)
next
  case (Cons h b)
  then show ?thesis using formatTable_Cons [of h b] by simp
qed

text \<open>
  Claim C10. For every table, the table with zero rows and jagged tables included,
  \<open>formatTable\<close> returns a string and never an error: the branch of the model in which
  \<open>repeat\<close> throws is never taken. (All functions of the model are total, so the call
  terminates.)
\<close>

theorem formatTable_total:
  "(\<exists>out table'. formatTable table = Inr (out, table')) \<and> (\<forall>e. formatTable table \<noteq> Inl e)"
proof -
  obtain out t' where "formatTable table = Inr (out, t')"
  proof (cases table)
    case Nil
    then have "formatTable table = Inr (''**No data**'', [])" by (simp add: formatTable_def)
    then show ?thesis by (rule that)
  next
    case (Cons h b)
    with formatTable_Cons [of h b] show ?thesis by (auto intro: that)
  qed
  then show ?thesis by simp
qed

section \<open>The padded cells\<close>

lemma length_pad_row: "length (pad_row cc r) = length r"
  by (simp add: pad_row_def)

lemma nth_pad_row: "i < length r \<Longrightarrow> pad_row cc r ! i = pad_cell cc (i, r ! i)"
  by (simp add: pad_row_def nth_enumerate_eq)

lemma length_pad_table: "length (pad_table cc t) = length t"
  by (simp add: pad_table_def)

lemma nth_pad_table: "r < length t \<Longrightarrow> pad_table cc t ! r = pad_row cc (t ! r)"
  by (simp add: pad_table_def)

lemma pad_cell_Num:
  "array_get cc i = Some (Num (int w)) \<Longrightarrow> length c \<le> w \<Longrightarrow>
   pad_cell cc (i, c) = c @ replicate (w - length c) CHR '' ''"
  by (auto simp: pad_cell_def padEnd_def ToLength_def Let_def)

lemma pad_cell_NaN: "array_get cc i = Some NaN \<Longrightarrow> pad_cell cc (i, c) = c"
  by (simp add: pad_cell_def padEnd_def ToLength_def)

lemma cell_len_le_col_width: "r \<in> set t \<Longrightarrow> cell_len i r \<le> col_width t i"
  by (simp add: col_width_def)

lemma array_get_colChars_header:
  "t \<noteq> [] \<Longrightarrow> i < length h \<Longrightarrow>
   array_get (colChars h t) i = Some (Num (int (col_width t i)))"
  using length_colChars_header [of h t]
  by (simp add: array_get_def colChars_nth_header)

lemma array_get_colChars_extra:
  "r \<in> set t \<Longrightarrow> i < length r \<Longrightarrow> length h \<le> i \<Longrightarrow>
   array_get (colChars h t) i = Some NaN"
  using length_colChars_row [of r t h]
  by (simp add: array_get_def colChars_nth_extra)

lemma padded_cell_header_column:
  assumes "r \<in> set t" and "i < length r" and "i < length h"
  shows "pad_row (colChars h t) r ! i
           = r ! i @ replicate (col_width t i - length (r ! i)) CHR '' ''"
    and "length (pad_row (colChars h t) r ! i) = col_width t i"
proof -
  from assms(1) have ne: "t \<noteq> []" by auto
  have le: "length (r ! i) \<le> col_width t i"
    using cell_len_le_col_width [OF assms(1), of i] assms(2) by (simp add: cell_len_def)
  show eq: "pad_row (colChars h t) r ! i
           = r ! i @ replicate (col_width t i - length (r ! i)) CHR '' ''"
    using assms(2) pad_cell_Num [OF array_get_colChars_header [OF ne assms(3)] le]
    by (simp add: nth_pad_row)
  show "length (pad_row (colChars h t) r ! i) = col_width t i"
    using le by (simp add: eq)
qed

lemma padded_cell_extra_column:
  assumes "r \<in> set t" and "i < length r" and "length h \<le> i"
  shows "pad_row (colChars h t) r ! i = r ! i"
  using assms(2) pad_cell_NaN [OF array_get_colChars_extra [OF assms]]
  by (simp add: nth_pad_row)

text \<open>
  Claim C1. For every non-empty table and every column index \<open>i\<close> below the header's
  number of cells: the width \<open>colChars[i]\<close> is the maximum over every row (header
  included) of the length of the row's cell at index \<open>i\<close>, a missing cell counting as 0;
  the rendered text is the header line, the separator line and one line per body row,
  each of the form \<open>line cells\<close>; in every row that has a cell at index \<open>i\<close> the
  rendered cell is the original text followed by spaces and has exactly that length;
  and the separator's run of dashes for column \<open>i\<close> has exactly that length.
\<close>

theorem column_width_is_max_cell_length:
  assumes "table \<noteq> []" and "i < length (hd table)"
  shows "\<exists>cc ds table'.
           cc = colChars (hd table) table \<and> dashes cc = Inr ds \<and>
           table' = pad_table cc table \<and>
           formatTable table =
             Inr (join [CHR 0x0A] (line (hd table') # line ds # map line (tl table')), table') \<and>
           cc ! i = Some (Num (int (col_width table i))) \<and>
           (\<forall>r<length table. i < length (table ! r) \<longrightarrow>
              table' ! r ! i
                = table ! r ! i @ replicate (col_width table i - length (table ! r ! i)) CHR '' '' \<and>
              length (table' ! r ! i) = col_width table i) \<and>
           i < length ds \<and> ds ! i = replicate (col_width table i) CHR ''-''"
proof -
  from assms(1) obtain h b where t: "table = h # b" by (cases table) auto
  let ?cc = "colChars h table"
  let ?ds = "map dash_run ?cc"
  let ?t' = "pad_table ?cc table"
  from assms(2) t have ih: "i < length h" by simp
  have w: "?cc ! i = Some (Num (int (col_width table i)))"
    using colChars_nth_header [OF assms(1) ih] .
  have il: "i < length ?cc"
    using ih length_colChars_header [of h table] by simp
  have fmt: "formatTable table =
               Inr (join [CHR 0x0A] (line (hd ?t') # line ?ds # map line (tl ?t')), ?t')"
    using formatTable_Cons [of h b] by (simp add: t table_lines_def)
  have cells: "\<forall>r<length table. i < length (table ! r) \<longrightarrow>
              ?t' ! r ! i
                = table ! r ! i @ replicate (col_width table i - length (table ! r ! i)) CHR '' '' \<and>
              length (?t' ! r ! i) = col_width table i"
  proof (intro allI impI)
    fix r assume r: "r < length table" and i: "i < length (table ! r)"
    from r have mem: "table ! r \<in> set table" by simp
    show "?t' ! r ! i
                = table ! r ! i @ replicate (col_width table i - length (table ! r ! i)) CHR '' '' \<and>
              length (?t' ! r ! i) = col_width table i"
      using padded_cell_header_column [OF mem i ih] r by (simp add: nth_pad_table)
  qed
  have d: "?ds ! i = replicate (col_width table i) CHR ''-''"
    using il w by (simp add: dash_run_def)
  show ?thesis
    using fmt w cells il d t dashes_colChars [of h table] by auto
qed

text \<open>
  The theorem at the table \<open>[["Key", "Default"], ["k"]]\<close> and column 0: the width is 3
  and the cell \<open>k\<close> of the body row is rendered as \<open>k\<close> followed by two spaces.
\<close>

theorem column_width_is_max_cell_length_witness:
  "[[''Key'', ''Default''], [''k'']] \<noteq> [] \<and>
   0 < length (hd [[''Key'', ''Default''], [''k'']]) \<and>
   col_width [[''Key'', ''Default''], [''k'']] 0 = 3 \<and>
   colChars [''Key'', ''Default''] [[''Key'', ''Default''], [''k'']] ! 0 = Some (Num 3) \<and>
   pad_table (colChars [''Key'', ''Default''] [[''Key'', ''Default''], [''k'']])
     [[''Key'', ''Default''], [''k'']] ! 1 ! 0 = ''k  ''"
proof -
  let ?t = "[[''Key'', ''Default''], [''k'']]"
  have h1: "?t \<noteq> []" by simp
  have h2: "0 < length (hd ?t)" by simp
  have w: "col_width ?t 0 = 3" by (simp add: col_width_def cell_len_def)
  from column_width_is_max_cell_length [OF h1 h2]
  obtain cc ds t' where cc: "cc = colChars (hd ?t) ?t" and t': "t' = pad_table cc ?t"
    and c: "cc ! 0 = Some (Num (int (col_width ?t 0)))"
    and p: "\<forall>r<length ?t. 0 < length (?t ! r) \<longrightarrow>
              t' ! r ! 0 = ?t ! r ! 0 @ replicate (col_width ?t 0 - length (?t ! r ! 0)) CHR '' '' \<and>
              length (t' ! r ! 0) = col_width ?t 0"
    by blast
  from p have "t' ! 1 ! 0 = ?t ! 1 ! 0 @ replicate (col_width ?t 0 - length (?t ! 1 ! 0)) CHR '' ''"
    by simp
  then have "t' ! 1 ! 0 = ''k  ''"
    unfolding w by (simp add: numeral_3_eq_3)
  with c cc t' w h1 h2 show ?thesis by simp
qed

section \<open>Fields per line\<close>

lemma join_Cons: "join sep (x # xs) = x @ (if xs = [] then [] else sep @ join sep xs)"
  by (cases xs) simp_all

lemma count_join_bars:
  "cells \<noteq> [] \<Longrightarrow> \<forall>c\<in>set cells. CHR ''|'' \<notin> set c \<Longrightarrow>
   count_list (join '' | '' cells) CHR ''|'' = length cells - 1"
proof (induction "'' | ''" cells rule: join.induct)
  case 1
  then show ?case by simp
next
  case (2 x)
  then show ?case by (simp add: count_list_0_iff)
next
  case (3 x y ys)
  then show ?case by (simp add: count_list_0_iff)
qed

lemma num_fields_line:
  "cells \<noteq> [] \<Longrightarrow> \<forall>c\<in>set cells. CHR ''|'' \<notin> set c \<Longrightarrow>
   num_fields (line cells) = length cells"
  by (cases cells) (simp_all add: num_fields_def line_def count_join_bars)

lemma set_padEnd: "set (padEnd s w) \<subseteq> insert CHR '' '' (set s)"
  by (auto simp: padEnd_def Let_def)

lemma pad_cell_padEnd: "pad_cell cc (i, c) = padEnd c (array_get cc i)"
  by (simp add: pad_cell_def Let_def)

lemma pad_row_no_bar:
  assumes "\<forall>c\<in>set r. CHR ''|'' \<notin> set c"
  shows "\<forall>c\<in>set (pad_row cc r). CHR ''|'' \<notin> set c"
proof
  fix c assume "c \<in> set (pad_row cc r)"
  then obtain i where i: "i < length r" and c: "c = pad_cell cc (i, r ! i)"
    by (auto simp: in_set_conv_nth length_pad_row nth_pad_row)
  from i assms have "CHR ''|'' \<notin> set (r ! i)" by simp
  with set_padEnd [of "r ! i" "array_get cc i"] show "CHR ''|'' \<notin> set c"
    by (auto simp: c pad_cell_padEnd)
qed

text \<open>
  Claim C2 as stated fails: the second loop visits the cells a row has and adds none, so
  a body row with fewer cells than the header is rendered with fewer fields. The table
  \<open>[["A", "B"], ["x"]]\<close> has a header of two cells, and its body line \<open>| x |\<close> has one
  field.
\<close>

theorem short_row_fields_counterexample:
  "formatTable [[''A'', ''B''], [''x'']]
     = Inr (join [CHR 0x0A] [''| A | B |'', ''| - | - |'', ''| x |''], [[''A'', ''B''], [''x'']]) \<and>
   num_fields ''| x |'' = 1 \<and> length (hd [[''A'', ''B''], [''x'']]) = 2"
  by code_simp

text \<open>
  Claim C2, amended. For every non-empty table whose rows are non-empty and whose cells
  contain no \<open>|\<close>, the header line has as many \<open>|\<close>-delimited fields as the header row
  has cells, and the line of each body row has as many fields as that row has cells:
  a body line has the header's number of fields when its row has the header's number
  of cells, and a shorter row is not padded with empty cells.
\<close>

theorem fields_per_line:
  assumes "table \<noteq> []"
    and "\<forall>row\<in>set table. row \<noteq> [] \<and> (\<forall>cell\<in>set row. CHR ''|'' \<notin> set cell)"
  shows "\<exists>ds table'.
           formatTable table =
             Inr (join [CHR 0x0A] (line (hd table') # line ds # map line (tl table')), table') \<and>
           length table' = length table \<and>
           (\<forall>r<length table. num_fields (line (table' ! r)) = length (table ! r))"
proof -
  from assms(1) obtain h b where t: "table = h # b" by (cases table) auto
  let ?cc = "colChars h table"
  let ?t' = "pad_table ?cc table"
  have fmt: "formatTable table =
               Inr (join [CHR 0x0A] (line (hd ?t') # line (map dash_run ?cc) # map line (tl ?t')), ?t')"
    using formatTable_Cons [of h b] by (simp add: t table_lines_def)
  have "\<forall>r<length table. num_fields (line (?t' ! r)) = length (table ! r)"
  proof (intro allI impI)
    fix r assume r: "r < length table"
    then have mem: "table ! r \<in> set table" by simp
    with assms(2) have ne: "table ! r \<noteq> []"
      and nb: "\<forall>c\<in>set (table ! r). CHR ''|'' \<notin> set c" by auto
    have ne': "pad_row ?cc (table ! r) \<noteq> []"
      using ne length_pad_row [of ?cc "table ! r"] by auto
    show "num_fields (line (?t' ! r)) = length (table ! r)"
      using num_fields_line [OF ne' pad_row_no_bar [OF nb]] r
      by (simp add: nth_pad_table length_pad_row)
  qed
  with fmt show ?thesis by (auto simp: length_pad_table)
qed

text \<open>
  The theorem at \<open>[["A", "B"], ["x"]]\<close>: two fields in the header line, one in the body
  line.
\<close>

theorem fields_per_line_witness:
  "formatTable [[''A'', ''B''], [''x'']]
     = Inr (join [CHR 0x0A] [''| A | B |'', ''| - | - |'', ''| x |''], [[''A'', ''B''], [''x'']]) \<and>
   num_fields (line [''A'', ''B'']) = 2 \<and> num_fields (line [''x'']) = 1"
proof -
  let ?t = "[[''A'', ''B''], [''x'']]"
  have e: "formatTable ?t = Inr (join [CHR 0x0A] [''| A | B |'', ''| - | - |'', ''| x |''], ?t)"
    by code_simp
  have h1: "?t \<noteq> []" by simp
  have h2: "\<forall>row\<in>set ?t. row \<noteq> [] \<and> (\<forall>cell\<in>set row. CHR ''|'' \<notin> set cell)" by simp
  from fields_per_line [OF h1 h2] obtain ds t'
    where f: "formatTable ?t = Inr (join [CHR 0x0A] (line (hd t') # line ds # map line (tl t')), t')"
      and n: "\<forall>r<length ?t. num_fields (line (t' ! r)) = length (?t ! r)"
    by blast
  from e f have t': "t' = ?t" by simp
  from n have "num_fields (line (t' ! 0)) = length (?t ! 0)"
    and "num_fields (line (t' ! 1)) = length (?t ! 1)" by simp_all
  with t' e show ?thesis by simp
qed

text \<open>
  The two conditions of the amended claim are needed: a \<open>|\<close> inside a cell is printed as
  it is and reads as one more delimiter, and a row without cells is printed as one
  empty field. A row with more cells than the header is printed with all its cells,
  the ones beyond the header unpadded.
\<close>

lemma bar_in_cell_adds_a_field:
  "formatTable [[''a|b'']] = Inr (join [CHR 0x0A] [''| a|b |'', ''| --- |''], [[''a|b'']]) \<and>
   num_fields ''| a|b |'' = 2 \<and> length (hd [[''a|b'']]) = 1"
  by code_simp

lemma empty_row_has_one_field:
  "formatTable [[]] = Inr (join [CHR 0x0A] [''|  |'', ''|  |''], [[]]) \<and>
   num_fields ''|  |'' = 1 \<and> length (hd [[] :: row]) = 0"
  by code_simp

lemma long_row_is_not_truncated:
  "formatTable [[''A''], [''x'', ''yy'']]
     = Inr (join [CHR 0x0A] [''| A |'', ''| - |  |'', ''| x | yy |''], [[''A''], [''x'', ''yy'']])"
  by code_simp

section \<open>The argument after the call\<close>

text \<open>
  Padding is idempotent, and the padded table has the widths of the original one. (So
  the result is the same when two rows of the table are one and the same array, which
  is then padded twice.)
\<close>

lemma padEnd_idem: "padEnd (padEnd s w) w = padEnd s w"
  by (simp add: padEnd_def Let_def)

lemma pad_cell_idem: "pad_cell cc (i, pad_cell cc (i, c)) = pad_cell cc (i, c)"
  by (simp add: pad_cell_padEnd padEnd_idem)

lemma pad_row_idem: "pad_row cc (pad_row cc r) = pad_row cc r"
  by (rule nth_equalityI) (simp_all add: length_pad_row nth_pad_row pad_cell_idem)

lemma pad_table_idem: "pad_table cc (pad_table cc t) = pad_table cc t"
  by (simp add: pad_table_def pad_row_idem)

lemma cell_len_pad_row:
  assumes "r \<in> set t" and "i < length h"
  shows "cell_len i (pad_row (colChars h t) r) = (if i < length r then col_width t i else 0)"
  using padded_cell_header_column(2) [OF assms(1) _ assms(2)]
  by (simp add: cell_len_def length_pad_row)

lemma col_width_pad_table:
  assumes "h \<in> set t" and "i < length h"
  shows "col_width (pad_table (colChars h t) t) i = col_width t i"
  unfolding col_width_def [of "pad_table (colChars h t) t"]
proof (rule Max_eqI)
  show "finite (cell_len i ` set (pad_table (colChars h t) t))" by simp
next
  fix y assume "y \<in> cell_len i ` set (pad_table (colChars h t) t)"
  then obtain r where "r \<in> set t" and "y = cell_len i (pad_row (colChars h t) r)"
    by (auto simp: pad_table_def)
  then show "y \<le> col_width t i"
    by (simp add: cell_len_pad_row [OF _ assms(2)])
next
  have "cell_len i (pad_row (colChars h t) h) = col_width t i"
    using assms by (simp add: cell_len_pad_row)
  moreover have "pad_row (colChars h t) h \<in> set (pad_table (colChars h t) t)"
    using assms(1) by (simp add: pad_table_def)
  ultimately show "col_width t i \<in> cell_len i ` set (pad_table (colChars h t) t)"
    by (metis imageI)
qed

lemma map_length_pad_table: "map length (pad_table cc t) = map length t"
  by (simp add: pad_table_def length_pad_row)

lemma colChars_pad_table:
  assumes "h \<in> set t"
  shows "colChars (pad_row (colChars h t) h) (pad_table (colChars h t) t) = colChars h t"
proof (rule nth_equalityI)
  let ?cc = "colChars h t"
  show len: "length (colChars (pad_row ?cc h) (pad_table ?cc t)) = length ?cc"
    by (simp add: length_colChars map_length_pad_table length_pad_row)
  fix i assume i: "i < length (colChars (pad_row ?cc h) (pad_table ?cc t))"
  from assms have ne: "t \<noteq> []" and ne': "pad_table ?cc t \<noteq> []"
    by (auto simp: pad_table_def)
  show "colChars (pad_row ?cc h) (pad_table ?cc t) ! i = ?cc ! i"
  proof (cases "i < length h")
    case True
    then have "i < length (pad_row ?cc h)" by (simp add: length_pad_row)
    from colChars_nth_header [OF ne' this] colChars_nth_header [OF ne True]
    show ?thesis by (simp add: col_width_pad_table [OF assms True])
  next
    case False
    then have "length (pad_row ?cc h) \<le> i" and "length h \<le> i"
      by (simp_all add: length_pad_row)
    from colChars_nth_extra [OF this(1) i] colChars_nth_extra [OF this(2)] i len
    show ?thesis by simp
  qed
qed

lemma formatTable_again:
  "formatTable (pad_table (colChars h (h # b)) (h # b)) = formatTable (h # b)"
proof -
  let ?cc = "colChars h (h # b)"
  have split: "pad_table ?cc (h # b) = pad_row ?cc h # pad_table ?cc b"
    by (simp add: pad_table_def)
  have cc: "colChars (pad_row ?cc h) (pad_table ?cc (h # b)) = ?cc"
    by (rule colChars_pad_table) simp
  have "formatTable (pad_row ?cc h # pad_table ?cc b) = formatTable (h # b)"
    using cc pad_table_idem [of ?cc "h # b"]
    unfolding formatTable_Cons [of "pad_row ?cc h" "pad_table ?cc b"] formatTable_Cons [of h b]
    by (simp add: split)
  then show ?thesis by (simp add: split)
qed

text \<open>
  Claim C3 as stated fails: \<open>formatTable\<close> overwrites the cells of its argument. After the
  call on \<open>[["Key"], ["k"]]\<close> the argument is \<open>[["Key"], ["k  "]]\<close>.
\<close>

theorem formatTable_leaves_argument_unchanged_counterexample:
  "formatTable [[''Key''], [''k'']] = Inr (''| Key |\<newline>| --- |\<newline>| k   |'', [[''Key''], [''k  '']]) \<and>
   [[''Key''], [''k  '']] \<noteq> [[''Key''], [''k'']]"
  by code_simp

text \<open>
  Claim C3, amended. The result of \<open>formatTable\<close> is a function of its argument alone,
  and the call has one side effect: it overwrites the cells of its argument in place.
  After the call the argument has the same rows with the same numbers of cells, and
  each cell holds its old text followed by spaces: up to the width of its column for a
  column of the header, none for a column beyond the header. A second call on the
  argument as the first call left it returns the same text and changes nothing more.
\<close>

theorem formatTable_pads_argument_in_place:
  "\<exists>out table'.
     formatTable table = Inr (out, table') \<and>
     length table' = length table \<and>
     (\<forall>r<length table.
        length (table' ! r) = length (table ! r) \<and>
        (\<forall>c<length (table ! r).
           table' ! r ! c =
             table ! r ! c @
               replicate (if c < length (hd table)
                          then col_width table c - length (table ! r ! c) else 0) CHR '' '')) \<and>
     formatTable table' = Inr (out, table')"
proof (cases table)
  case Nil
  then show ?thesis by (simp add: formatTable_def)
next
  case (Cons h b)
  let ?cc = "colChars h table"
  let ?t' = "pad_table ?cc table"
  have cells: "\<forall>r<length table.
        length (?t' ! r) = length (table ! r) \<and>
        (\<forall>c<length (table ! r).
           ?t' ! r ! c =
             table ! r ! c @
               replicate (if c < length (hd table)
                          then col_width table c - length (table ! r ! c) else 0) CHR '' '')"
  proof (intro allI impI conjI)
    fix r assume r: "r < length table"
    then show "length (?t' ! r) = length (table ! r)"
      by (simp add: nth_pad_table length_pad_row)
    fix c assume c: "c < length (table ! r)"
    from r have mem: "table ! r \<in> set table" by simp
    show "?t' ! r ! c =
             table ! r ! c @
               replicate (if c < length (hd table)
                          then col_width table c - length (table ! r ! c) else 0) CHR '' ''"
    proof (cases "c < length h")
      case True
      with padded_cell_header_column(1) [OF mem c True] r Cons show ?thesis
        by (simp add: nth_pad_table)
    next
      case False
      then have "length h \<le> c" by simp
      from padded_cell_extra_column [OF mem c this] r False Cons show ?thesis
        by (simp add: nth_pad_table)
    qed
  qed
  have "formatTable table = Inr (join [CHR 0x0A] (table_lines ?t' (map dash_run ?cc)), ?t')"
    using formatTable_Cons [of h b] Cons by simp
  moreover have "formatTable ?t' = formatTable table"
    using formatTable_again [of h b] Cons by simp
  ultimately show ?thesis
    using cells by (simp add: length_pad_table)
qed

text \<open>
  The theorem at \<open>[["Key"], ["k"]]\<close>: the first call returns the three lines and leaves
  \<open>[["Key"], ["k  "]]\<close>, on which the second call returns the same three lines.
\<close>

theorem formatTable_pads_argument_in_place_witness:
  "formatTable [[''Key''], [''k'']] = Inr (''| Key |\<newline>| --- |\<newline>| k   |'', [[''Key''], [''k  '']]) \<and>
   formatTable [[''Key''], [''k  '']] = Inr (''| Key |\<newline>| --- |\<newline>| k   |'', [[''Key''], [''k  '']])"
proof -
  have e: "formatTable [[''Key''], [''k'']]
             = Inr (''| Key |\<newline>| --- |\<newline>| k   |'', [[''Key''], [''k  '']])"
    by code_simp
  from formatTable_pads_argument_in_place [of "[[''Key''], [''k'']]"]
  obtain out t' where "formatTable [[''Key''], [''k'']] = Inr (out, t')"
    and "formatTable t' = Inr (out, t')" by blast
  with e show ?thesis by simp
qed

section \<open>The placeholder and the worked examples\<close>

lemma formatTable_nonempty_starts_with_bar:
  "\<exists>rest table'. formatTable (h # b) = Inr (CHR ''|'' # rest, table')"
  by (simp add: formatTable_Cons table_lines_def join_Cons line_def)

text \<open>
  Claim C4. \<open>formatTable\<close> returns the text \<open>**No data**\<close> on the table with zero rows,
  and on no other table.
\<close>

theorem no_data_iff_empty:
  "(\<exists>table'. formatTable table = Inr (''**No data**'', table')) = (table = [])"
proof (cases table)
  case Nil
  then show ?thesis by (simp add: formatTable_def)
next
  case (Cons h b)
  from formatTable_nonempty_starts_with_bar [of h b] obtain rest t'
    where "formatTable (h # b) = Inr (CHR ''|'' # rest, t')" by blast
  with Cons show ?thesis by simp
qed

text \<open>
  The table with zero rows gives the placeholder; a table with one header cell does
  not.
\<close>

theorem no_data_iff_empty_witness:
  "(\<exists>table'. formatTable [] = Inr (''**No data**'', table')) \<and>
   \<not> (\<exists>table'. formatTable [[''A'']] = Inr (''**No data**'', table'))"
  using no_data_iff_empty [of "[]"] no_data_iff_empty [of "[[''A'']]"] by simp

text \<open>
  Claim C5. On the header-only table \<open>[["A", "B"]]\<close>, \<open>formatTable\<close> returns the two
  lines \<open>| A | B |\<close> and \<open>| - | - |\<close> joined by one newline, with no body line.
\<close>

theorem header_only_table:
  "formatTable [[''A'', ''B'']] = Inr (''| A | B |\<newline>| - | - |'', [[''A'', ''B'']])"
  by code_simp

text \<open>
  Claim C6 as stated fails: the second column is 14 wide, the length of
  \<open>a longer value\<close>, not the 15 and 16 of the three lines of the claim.
\<close>

theorem worked_example_widths_counterexample:
  "formatTable [[''Title'', ''Description''], [''x'', ''a longer value'']]
     = Inr (''| Title | Description    |\<newline>| ----- | -------------- |\<newline>| x     | a longer value |'',
            [[''Title'', ''Description   ''], [''x    '', ''a longer value'']]) \<and>
   ''| Title | Description    |\<newline>| ----- | -------------- |\<newline>| x     | a longer value |''
     \<noteq> ''| Title | Description     |\<newline>| ----- | ---------------- |\<newline>| x     | a longer value  |''"
  by code_simp

text \<open>
  Claim C6, amended. On \<open>[["Title", "Description"], ["x", "a longer value"]]\<close>,
  \<open>formatTable\<close> returns the three lines \<open>| Title | Description    |\<close>,
  \<open>| ----- | -------------- |\<close> and \<open>| x     | a longer value |\<close> joined by newlines:
  the first column is 5 wide and the second 14, the lengths of the longest cells.
\<close>

theorem worked_example_actual_widths:
  "formatTable [[''Title'', ''Description''], [''x'', ''a longer value'']]
     = Inr (''| Title | Description    |\<newline>| ----- | -------------- |\<newline>| x     | a longer value |'',
            [[''Title'', ''Description   ''], [''x    '', ''a longer value'']])"
  by code_simp

section \<open>Escaping\<close>

lemma replaceAll_append: "replaceAll c r (xs @ ys) = replaceAll c r xs @ replaceAll c r ys"
  by (simp add: replaceAll_def)

lemma markdownEscape_append: "markdownEscape (xs @ ys) = markdownEscape xs @ markdownEscape ys"
  by (simp add: markdownEscape_def replaceAll_append)

lemma markdownEscape_single: "markdownEscape [c] = escape_char c"
  by (simp add: markdownEscape_def replaceAll_def escape_char_def)

text \<open>
  Claim C7. The four substitutions, applied in the order \<open>&\<close>, \<open><\<close>, \<open>>\<close>, \<open>|\<close>, replace
  each character of the input by its own entity exactly once: the result is the
  concatenation of \<open>escape_char c\<close> over the characters \<open>c\<close> of the input, so the
  ampersands that the later substitutions introduce are not escaped again.
\<close>

theorem markdownEscape_charwise: "markdownEscape s = concat (map escape_char s)"
proof (induction s)
  case Nil
  show ?case by (simp add: markdownEscape_def replaceAll_def)
next
  case (Cons c cs)
  have "markdownEscape (c # cs) = markdownEscape [c] @ markdownEscape cs"
    using markdownEscape_append [of "[c]" cs] by simp
  with Cons show ?case by (simp add: markdownEscape_single)
qed

section \<open>The rows of the preferences table\<close>

lemma markdownEscape_undefined: "markdownEscape ''undefined'' = ''undefined''"
  by (simp add: markdownEscape_def replaceAll_def)

text \<open>
  Claim C8. When the manifest declares preferences, the table given to \<open>formatTable\<close>
  is the header followed by one row per preference, and the row of a preference is the
  name in backticks, the escaped description, \<open>Yes\<close> in backticks when the required
  flag is true and \<open>No\<close> in backticks otherwise, and the escaped text of the default
  value, which is the text \<open>undefined\<close> when the preference has no default. The
  \<open>configsTable\<close> of the result is that table rendered.
\<close>

theorem preference_body_row:
  assumes "preferences packageJson = Some ps" and "p \<in> set ps"
  shows "configsTable_rows str packageJson
           = [''Key'', ''Description'', ''Required'', ''Default''] # map (preference_row str) ps \<and>
         preference_row str p
           = [[CHR 0x60] @ RaycastPreference.name p @ [CHR 0x60],
              markdownEscape (RaycastPreference.description p),
              (if required p = Some True then [CHR 0x60] @ ''Yes'' @ [CHR 0x60]
               else [CHR 0x60] @ ''No'' @ [CHR 0x60]),
              markdownEscape (case default p of None \<Rightarrow> ''undefined'' | Some v \<Rightarrow> str v)] \<and>
         (default p = None \<longrightarrow> preference_row str p ! 3 = ''undefined'') \<and>
         (\<exists>c t r. formatTable (configsTable_rows str packageJson) = Inr (t, r) \<and>
            generateMarkdown str packageJson = Inr \<lparr>commandsTable = c, configsTable = t\<rparr>)"
proof -
  from assms(2) have ne: "ps \<noteq> []" by auto
  have rows: "configsTable_rows str packageJson
           = [''Key'', ''Description'', ''Required'', ''Default''] # map (preference_row str) ps"
    using assms(1) ne by (simp add: configsTable_rows_def)
  have row: "preference_row str p
           = [[CHR 0x60] @ RaycastPreference.name p @ [CHR 0x60],
              markdownEscape (RaycastPreference.description p),
              (if required p = Some True then [CHR 0x60] @ ''Yes'' @ [CHR 0x60]
               else [CHR 0x60] @ ''No'' @ [CHR 0x60]),
              markdownEscape (case default p of None \<Rightarrow> ''undefined'' | Some v \<Rightarrow> str v)]"
    by (simp add: preference_row_def backticks_def String_def)
  have undef: "default p = None \<longrightarrow> preference_row str p ! 3 = ''undefined''"
    by (simp add: row markdownEscape_undefined numeral_3_eq_3)
  obtain c cr where c: "formatTable (commandsTable_rows packageJson) = Inr (c, cr)"
    using formatTable_returns by blast
  obtain t r where t: "formatTable (configsTable_rows str packageJson) = Inr (t, r)"
    using formatTable_returns by blast
  have "generateMarkdown str packageJson = Inr \<lparr>commandsTable = c, configsTable = t\<rparr>"
    by (simp add: generateMarkdown_def c t)
  with rows row undef t show ?thesis by blast
qed

text \<open>
  The theorem at a required preference \<open>key\<close> with description \<open>a|b\<close> and no
  default.
\<close>

theorem preference_body_row_witness:
  "preference_row (\<lambda>n::nat. ''5'')
     \<lparr>RaycastPreference.name = ''key'', title = ''Key'', type = ''textfield'',
      required = Some True, description = ''a|b'', default = None\<rparr>
     = [[CHR 0x60] @ ''key'' @ [CHR 0x60], ''a&vert;b'', [CHR 0x60] @ ''Yes'' @ [CHR 0x60], ''undefined'']"
proof -
  let ?p = "\<lparr>RaycastPreference.name = ''key'', title = ''Key'', type = ''textfield'',
      required = Some True, description = ''a|b'', default = (None :: nat option)\<rparr>"
  let ?pkg = "\<lparr>commands = None, preferences = Some [?p]\<rparr>"
  have h1: "preferences ?pkg = Some [?p]" by simp
  have h2: "?p \<in> set [?p]" by simp
  have e: "markdownEscape ''a|b'' = ''a&vert;b''"
    by (simp add: markdownEscape_def replaceAll_def)
  from preference_body_row [OF h1 h2, of "\<lambda>n. ''5''"] show ?thesis
    by (simp add: e markdownEscape_undefined)
qed

section \<open>Splicing\<close>

text \<open>
  A match of the pattern splits the text into the part before it, the two markers with
  the region between them, and the part after it.
\<close>

lemma starts_with_append: "starts_with p s \<Longrightarrow> s = p @ drop (length p) s"
  by (induction p s rule: starts_with.induct) auto

lemma end_marker_sound: "end_marker a b s = Some (c, rest) \<Longrightarrow> s = marker c @ rest"
  by (auto simp: end_marker_def split: if_splits dest: starts_with_append)

lemma lazy_any_sound: "lazy_any a b s = Some (mid, c2, rest) \<Longrightarrow> s = mid @ marker c2 @ rest"
proof (induction a b s arbitrary: mid rule: lazy_any.induct)
  case (1 a b)
  then show ?case by (auto split: option.splits dest: end_marker_sound)
next
  case (2 a b x xs)
  show ?case
  proof (cases "end_marker a b (x # xs)")
    case None
    with "2.prems" obtain mid' where l: "lazy_any a b xs = Some (mid', c2, rest)"
      and m: "mid = x # mid'"
      by (auto split: option.splits)
    from "2.IH" [OF None l] m show ?thesis by simp
  next
    case (Some r)
    with "2.prems" show ?thesis by (auto dest: end_marker_sound)
  qed
qed

lemma alternative_sound:
  "alternative n a b s = Some (c1, mid, c2, rest) \<Longrightarrow> s = marker c1 @ mid @ marker c2 @ rest"
proof -
  assume h: "alternative n a b s = Some (c1, mid, c2, rest)"
  then have sw: "starts_with (marker n) s" and c1: "c1 = n"
    and l: "lazy_any a b (drop (length (marker n)) s) = Some (mid, c2, rest)"
    by (auto simp: alternative_def split: if_splits option.splits)
  from starts_with_append [OF sw] lazy_any_sound [OF l] c1 show ?thesis by simp
qed

lemma match_here_sound:
  "match_here a b s = Some (c1, mid, c2, rest) \<Longrightarrow> s = marker c1 @ mid @ marker c2 @ rest"
  by (auto simp: match_here_def split: option.splits dest: alternative_sound)

lemma exec_sound:
  "exec a b s = Some (pre, c1, mid, c2, post) \<Longrightarrow> s = pre @ marker c1 @ mid @ marker c2 @ post"
proof (induction a b s arbitrary: pre rule: exec.induct)
  case (1 a b)
  then show ?case by (auto split: option.splits dest: match_here_sound)
next
  case (2 a b x xs)
  show ?case
  proof (cases "match_here a b (x # xs)")
    case None
    with "2.prems" obtain pre' where e: "exec a b xs = Some (pre', c1, mid, c2, post)"
      and p: "pre = x # pre'"
      by (auto split: option.splits)
    from "2.IH" [OF None e] p show ?thesis by simp
  next
    case (Some m)
    with "2.prems" show ?thesis by (auto dest: match_here_sound)
  qed
qed

text \<open>
  A replacement string is copied as it is up to its first \<open>$\<close>. When the table holds
  no \<open>$\<close>, the replacement expands to the first marker, a blank line, the table, a
  blank line and the second marker.
\<close>

lemma GetSubstitution_plain:
  "c \<noteq> CHR ''$'' \<Longrightarrow>
   GetSubstitution m pre post caps (c # t) = c # GetSubstitution m pre post caps t"
  by (cases t) simp_all

lemma GetSubstitution_no_dollar:
  "CHR ''$'' \<notin> set xs \<Longrightarrow>
   GetSubstitution m pre post caps (xs @ ys) = xs @ GetSubstitution m pre post caps ys"
proof (induction xs)
  case Nil
  show ?case by simp
next
  case (Cons x xs)
  then have "x \<noteq> CHR ''$''" by auto
  from GetSubstitution_plain [OF this] Cons show ?case by simp
qed

lemma digit_facts:
  "is_digit CHR ''1''" "is_digit CHR ''2''" "\<not> is_digit CHR '' ''"
  "digit_value CHR ''1'' = 1" "digit_value CHR ''2'' = 2"
  by (simp_all add: is_digit_def digit_value_def)

lemma GetSubstitution_capture1:
  "GetSubstitution m pre post [c1, c2] (CHR ''$'' # CHR ''1'' # CHR '' '' # t)
     = c1 @ GetSubstitution m pre post [c1, c2] (CHR '' '' # t)"
  by (simp add: digit_facts)

lemma GetSubstitution_capture2:
  "GetSubstitution m pre post [c1, c2] (CHR ''$'' # CHR ''2'' # CHR '' '' # t)
     = c2 @ GetSubstitution m pre post [c1, c2] (CHR '' '' # t)"
  by (simp add: digit_facts)

lemma GetSubstitution_replacement:
  assumes "CHR ''$'' \<notin> set t"
  shows "GetSubstitution m pre post [c1, c2] (replacement t)
           = marker c1 @ [CHR 0x0A, CHR 0x0A] @ t @ [CHR 0x0A, CHR 0x0A] @ marker c2"
proof -
  have tail: "GetSubstitution m pre post [c1, c2] ''$2 -->'' = c2 @ '' -->''"
    by (simp add: digit_facts)
  have mid: "GetSubstitution m pre post [c1, c2]
               (('' -->'' @ [CHR 0x0A, CHR 0x0A] @ t @ [CHR 0x0A, CHR 0x0A] @ ''<!-- '') @ ''$2 -->'')
             = ('' -->'' @ [CHR 0x0A, CHR 0x0A] @ t @ [CHR 0x0A, CHR 0x0A] @ ''<!-- '') @ c2 @ '' -->''"
    using assms by (subst GetSubstitution_no_dollar) (simp_all add: tail del: GetSubstitution.simps)
  have "GetSubstitution m pre post [c1, c2] (replacement t)
          = ''<!-- '' @ GetSubstitution m pre post [c1, c2]
                (''$1 -->'' @ [CHR 0x0A, CHR 0x0A] @ t @ [CHR 0x0A, CHR 0x0A] @ ''<!-- $2 -->'')"
    using GetSubstitution_no_dollar [of "''<!-- ''" m pre post "[c1, c2]"
        "''$1 -->'' @ [CHR 0x0A, CHR 0x0A] @ t @ [CHR 0x0A, CHR 0x0A] @ ''<!-- $2 -->''"]
    by (simp add: replacement_def del: GetSubstitution.simps)
  also have "\<dots> = ''<!-- '' @ c1 @ GetSubstitution m pre post [c1, c2]
               (('' -->'' @ [CHR 0x0A, CHR 0x0A] @ t @ [CHR 0x0A, CHR 0x0A] @ ''<!-- '') @ ''$2 -->'')"
    by (simp add: GetSubstitution_capture1 del: GetSubstitution.simps)
  finally show ?thesis
    unfolding mid by (simp add: marker_def del: GetSubstitution.simps)
qed

text \<open>
  So a document whose two regions already hold the rendered tables between blank lines
  is left as it is, and is not written, when the tables hold no \<open>$\<close>.
\<close>

lemma replace_same_region:
  assumes "exec a b raw = Some (pre, c1, [CHR 0x0A, CHR 0x0A] @ t @ [CHR 0x0A, CHR 0x0A], c2, post)"
    and "CHR ''$'' \<notin> set t"
  shows "replace a b (replacement t) raw = raw"
  using exec_sound [OF assms(1)] assms
  by (simp add: replace_def GetSubstitution_replacement del: GetSubstitution.simps)

lemma splice_same_regions:
  assumes "exec ''commands'' ''commands-table'' raw
             = Some (pre, c1, [CHR 0x0A, CHR 0x0A] @ commandsTable markdown @ [CHR 0x0A, CHR 0x0A], c2, post)"
    and "exec ''configs'' ''configs-table'' raw
             = Some (pre', d1, [CHR 0x0A, CHR 0x0A] @ configsTable markdown @ [CHR 0x0A, CHR 0x0A], d2, post')"
    and "CHR ''$'' \<notin> set (commandsTable markdown)"
    and "CHR ''$'' \<notin> set (configsTable markdown)"
  shows "splice markdown raw = raw"
  by (simp add: splice_def replace_same_region [OF assms(1,3)] replace_same_region [OF assms(2,4)])

lemma generate_writes_iff_changed:
  "generateMarkdown str json = Inr markdown \<Longrightarrow>
   generate str json raw = Inr (if splice markdown raw = raw then None else Some (splice markdown raw))"
  by (auto simp: generate_def Let_def)

lemma generate_no_rewrite:
  assumes "generateMarkdown str json = Inr markdown"
    and "exec ''commands'' ''commands-table'' raw
           = Some (pre, c1, [CHR 0x0A, CHR 0x0A] @ commandsTable markdown @ [CHR 0x0A, CHR 0x0A], c2, post)"
    and "exec ''configs'' ''configs-table'' raw
           = Some (pre', d1, [CHR 0x0A, CHR 0x0A] @ configsTable markdown @ [CHR 0x0A, CHR 0x0A], d2, post')"
    and "CHR ''$'' \<notin> set (commandsTable markdown)"
    and "CHR ''$'' \<notin> set (configsTable markdown)"
  shows "generate str json raw = Inr None"
  using generate_writes_iff_changed [OF assms(1), of raw] splice_same_regions [OF assms(2-5)]
  by simp

text \<open>
  Claim C9. The splice is meant to leave such a document unchanged, and \<open>generate\<close>
  writes the file only when the spliced text differs from the text read. The code
  misses the case of a table that holds a replacement pattern: the table is pasted
  into the replacement string of \<open>replace\<close>, where \<open>$1\<close>, \<open>$2\<close>, \<open>$$\<close>, \<open>$&\<close>, \<open>$`\<close>
  and \<open>$'\<close> are expanded. For a command \<open>Pay\<close> with the description \<open>Costs $1\<close>, and a
  document whose regions already hold the two rendered tables, the splice writes
  \<open>Costs commands\<close> into the table and the file is rewritten.
\<close>

theorem splice_expands_dollar_in_table:
  "generateMarkdown (\<lambda>v::unit. [])
     \<lparr>commands = Some [\<lparr>RaycastCommand.name = ''pay'', title = ''Pay'',
                          description = ''Costs $1'', mode = ''view''\<rparr>],
      preferences = None\<rparr>
     = Inr \<lparr>commandsTable =
              ''| Title | Description |\<newline>| ----- | ----------- |\<newline>| '' @ [CHR 0x60] @ ''Pay''
                @ [CHR 0x60] @ '' | Costs $1    |'',
            configsTable = ''**No data**''\<rparr> \<and>
   generate (\<lambda>v::unit. [])
     \<lparr>commands = Some [\<lparr>RaycastCommand.name = ''pay'', title = ''Pay'',
                          description = ''Costs $1'', mode = ''view''\<rparr>],
      preferences = None\<rparr>
     (''<!-- commands -->\<newline>\<newline>''
        @ (''| Title | Description |\<newline>| ----- | ----------- |\<newline>| '' @ [CHR 0x60] @ ''Pay''
             @ [CHR 0x60] @ '' | Costs $1    |'')
        @ ''\<newline>\<newline><!-- commands -->\<newline><!-- configs -->\<newline>\<newline>''
        @ ''**No data**''
        @ ''\<newline>\<newline><!-- configs -->'')
     = Inr (Some
         (''<!-- commands -->\<newline>\<newline>''
            @ (''| Title | Description |\<newline>| ----- | ----------- |\<newline>| '' @ [CHR 0x60] @ ''Pay''
                 @ [CHR 0x60] @ '' | Costs commands    |'')
            @ ''\<newline>\<newline><!-- commands -->\<newline><!-- configs -->\<newline>\<newline>''
            @ ''**No data**''
            @ ''\<newline>\<newline><!-- configs -->''))"
  by code_simp

end
